theory Spec2Isabelle
  imports Complex_Main "HOL-Library.Word" "HOL-Library.Signed_Division"
begin

section \<open>The ESP32 pan/tilt receiver (src/Comunicacion-Serial/src/main.cpp)\<close>

text \<open>
  The sketch is one \<open>loop\<close> over global variables: each pass serves at most one HTTP
  request (\<open>server.handleClient\<close>) and reads at most one line from the serial port.
  The globals are a record that every function takes and returns; the clock
  (\<open>millis()\<close>), the pending request and the pending serial line are arguments.

  On the ESP32 \<open>int\<close>, \<open>long\<close> and \<open>unsigned long\<close> are 32 bits wide. The unsigned
  counters and timestamps are \<open>32 word\<close>, so \<open>+\<close> and \<open>-\<close> wrap as the hardware does.
  The \<open>int\<close> variables are HOL integers; the two places where an \<open>int\<close> is made from
  something wider or unsigned (\<open>String::toInt\<close>, the cast \<open>(int)totalMessages\<close>) bring
  the value into the 32-bit signed range explicitly.
\<close>

subsection \<open>Global variables (lines 22-44)\<close>

type_synonym ulong = "32 word"

definition ULONG_MAX :: ulong where
  "ULONG_MAX = 4294967295"

definition INTERVAL_HISTORY_SIZE :: int where
  "INTERVAL_HISTORY_SIZE = 100"

text \<open>
  \<open>myServo\<close> stands for the servo object: the angle of the last \<open>myServo.write\<close>,
  \<open>None\<close> while nothing has been written.
\<close>

record state =
  currentPan :: int
  currentTilt :: int
  myServo :: "int option"
  angulo :: int
  totalMessages :: ulong
  stressTestMessages :: ulong
  lastMessageTime :: ulong
  stressTestStartTime :: ulong
  minInterval :: ulong
  maxInterval :: ulong
  totalInterval :: ulong
  stressTestActive :: bool
  lastErrorCount :: ulong
  intervalHistory :: "ulong list"
  intervalHistoryIndex :: int

text \<open>The initialisers of lines 23-44; the global array is zero-initialised.\<close>

definition initial :: state where
  "initial = \<lparr> currentPan = 90, currentTilt = 90, myServo = None, angulo = 90,
     totalMessages = 0, stressTestMessages = 0, lastMessageTime = 0,
     stressTestStartTime = 0, minInterval = ULONG_MAX, maxInterval = 0,
     totalInterval = 0, stressTestActive = False, lastErrorCount = 0,
     intervalHistory = replicate 100 0, intervalHistoryIndex = 0 \<rparr>"

subsection \<open>\<open>String::toInt\<close> and decimal text\<close>

text \<open>
  \<open>angleString.toInt()\<close> is the Arduino core's \<open>atol\<close> on the character buffer:
  leading white space is skipped, one sign is accepted, the longest run of decimal
  digits is read, and anything after it is ignored. Text with no digits gives 0. A
  value beyond the range of \<open>long\<close> saturates (newlib's \<open>strtol\<close>).
\<close>

definition isspace :: "char \<Rightarrow> bool" where
  "isspace c = (let n = (of_char c :: nat) in n = 32 \<or> (9 \<le> n \<and> n \<le> 13))"

definition isdigit :: "char \<Rightarrow> bool" where
  "isdigit c = (let n = (of_char c :: nat) in 48 \<le> n \<and> n \<le> 57)"

fun parse_digits :: "nat \<Rightarrow> string \<Rightarrow> nat" where
  "parse_digits acc [] = acc"
| "parse_digits acc (c # cs) =
     (if isdigit c then parse_digits (acc * 10 + (of_char c - 48)) cs else acc)"

definition toInt :: "string \<Rightarrow> int" where
  "toInt buffer =
     (case dropWhile isspace buffer of
        [] \<Rightarrow> 0
      | c # cs \<Rightarrow>
          if c = CHR ''-'' then max (- 2147483648) (- int (parse_digits 0 cs))
          else if c = CHR ''+'' then min 2147483647 (int (parse_digits 0 cs))
          else min 2147483647 (int (parse_digits 0 (c # cs))))"

text \<open>The decimal text of a natural number, the well-formed form of a command.\<close>

definition digit_char :: "nat \<Rightarrow> char" where
  "digit_char d = char_of (48 + d)"

fun decimal :: "nat \<Rightarrow> string" where
  "decimal n = (if n < 10 then [digit_char n] else decimal (n div 10) @ [digit_char (n mod 10)])"

declare decimal.simps [simp del]

text \<open>The decimal text of an integer: a minus sign before the digits of a negative one.\<close>

definition decimal_int :: "int \<Rightarrow> string" where
  "decimal_int v = (if v < 0 then CHR ''-'' # decimal (nat (- v)) else decimal (nat v))"

subsection \<open>The statistics page (\<open>handleStats\<close>, lines 117-198)\<close>

text \<open>
  The page is modelled by the values it prints, before formatting (the division by
  1000.0 for display and the number of decimals are left out).
\<close>

subsubsection \<open>Binary floating point\<close>

text \<open>
  The rate and the mean are computed in floating point. A floating-point number is
  modelled by its value, a rational, and an operation by its exact result rounded to
  the nearest number whose significand has \<open>p\<close> bits, a tie going to the even
  significand (the default rounding of IEEE 754): \<open>p = 24\<close> for \<open>float\<close> (binary32)
  and \<open>p = 53\<close> for \<open>double\<close> (binary64). The exponent range is not modelled. Every
  operand here is a 32-bit unsigned value or 1000 times one, and every quotient of two
  of them lies between 2^-32 and 2^42, far inside the normal range of both formats, so
  no result overflows or is subnormal. Division by zero does not trap: it gives an
  infinity, or NaN for 0/0.

  \<open>ilog2 n\<close> is the position of the leading bit of \<open>n\<close>, \<open>exponent_of q\<close> the integer
  \<open>e\<close> with \<open>2^e \<le> q < 2^(e+1)\<close> for a positive \<open>q\<close>.
\<close>

fun ilog2 :: "nat \<Rightarrow> nat" where
  "ilog2 n = (if n < 2 then 0 else Suc (ilog2 (n div 2)))"

declare ilog2.simps [simp del]

definition exponent_of :: "rat \<Rightarrow> int" where
  "exponent_of q =
     (if 1 \<le> q then int (ilog2 (nat \<lfloor>q\<rfloor>))
      else - int (Suc (ilog2 (nat (\<lceil>1 / q\<rceil> - 1)))))"

definition round_half_even :: "rat \<Rightarrow> int" where
  "round_half_even x =
     (let f = \<lfloor>x\<rfloor>; r = x - of_int f
      in if r < 1 / 2 then f else if 1 / 2 < r then f + 1 else if even f then f else f + 1)"

definition round_to :: "nat \<Rightarrow> rat \<Rightarrow> rat" where
  "round_to p q =
     (if q = 0 then 0
      else (let u = 2 powi (exponent_of \<bar>q\<bar> - int p + 1)
            in sgn q * of_int (round_half_even (\<bar>q\<bar> / u)) * u))"

definition f32 :: "rat \<Rightarrow> rat" where
  "f32 q = round_to 24 q"

definition f64 :: "rat \<Rightarrow> rat" where
  "f64 q = round_to 53 q"

text \<open>The conversions of an \<open>unsigned long\<close> to \<open>float\<close> and to \<open>double\<close>.\<close>

definition float_of_ulong :: "ulong \<Rightarrow> rat" where
  "float_of_ulong w = f32 (of_nat (unat w))"

definition double_of_ulong :: "ulong \<Rightarrow> rat" where
  "double_of_ulong w = f64 (of_nat (unat w))"

datatype fnum = Fin rat | PosInf | NegInf | NotANumber

text \<open>Division in the format whose rounding is \<open>rnd\<close>.\<close>

definition fdiv :: "(rat \<Rightarrow> rat) \<Rightarrow> rat \<Rightarrow> rat \<Rightarrow> fnum" where
  "fdiv rnd x y =
     (if y = 0 then (if x = 0 then NotANumber else if 0 < x then PosInf else NegInf)
      else Fin (rnd (x / y)))"

text \<open>The conversion of a \<open>double\<close> to \<open>float\<close>, as in \<open>float m = ...\<close>.\<close>

fun narrow :: "fnum \<Rightarrow> fnum" where
  "narrow (Fin q) = Fin (f32 q)"
| "narrow x = x"

text \<open>
  Lines 145 and 154: \<open>(stressTestMessages * 1000.0) / duration\<close>. The literal is a
  \<open>double\<close>, so both operands are converted to \<open>double\<close>, the product and the quotient
  are \<open>double\<close> operations, and the result is narrowed to the \<open>float\<close> variable.
\<close>

definition messagesPerSecond :: "ulong \<Rightarrow> ulong \<Rightarrow> fnum" where
  "messagesPerSecond n duration =
     narrow (fdiv f64 (f64 (double_of_ulong n * 1000)) (double_of_ulong duration))"

text \<open>
  Line 163: \<open>totalInterval / (float)(totalMessages - 1)\<close>. The cast makes the divisor a
  \<open>float\<close>, the dividend is converted to \<open>float\<close>, and the division is a \<open>float\<close>
  operation.
\<close>

definition mean_interval :: "ulong \<Rightarrow> ulong \<Rightarrow> fnum" where
  "mean_interval total_interval n = fdiv f32 (float_of_ulong total_interval) (float_of_ulong n)"

subsubsection \<open>The rows of the page\<close>

datatype stress_view =
    NoStress
  | Running (elapsedTime: ulong) (running_messages: ulong) (running_rate: fnum)
  | LastTest (testDuration: ulong) (test_messages: ulong) (test_rate: fnum)

datatype interval_view =
  IntervalStats (shown_min: ulong) (shown_max: ulong) (avgInterval: fnum)

datatype history_view = NoTable | Cells "ulong list" | OutOfBounds

record stats_view =
  shown_total :: ulong
  shown_stress :: stress_view
  shown_intervals :: "interval_view option"
  shown_errors :: ulong
  shown_history :: history_view

text \<open>Lines 142-159: the stress-test rows.\<close>

definition stress_rows :: "ulong \<Rightarrow> state \<Rightarrow> stress_view" where
  "stress_rows millis s =
     (if stressTestActive s then
        (let elapsed = millis - stressTestStartTime s
         in Running elapsed (stressTestMessages s)
              (messagesPerSecond (stressTestMessages s) elapsed))
      else if stressTestMessages s > 0 then
        (let duration = lastMessageTime s - stressTestStartTime s
         in LastTest duration (stressTestMessages s)
              (messagesPerSecond (stressTestMessages s) duration))
      else NoStress)"

text \<open>Lines 162-168: the interval rows.\<close>

definition interval_rows :: "state \<Rightarrow> interval_view option" where
  "interval_rows s =
     (if totalMessages s > 1 then
        Some (IntervalStats (minInterval s) (maxInterval s)
                (mean_interval (totalInterval s) (totalMessages s - 1)))
      else None)"

text \<open>
  Lines 175-188: the table of recent intervals. \<open>(int)totalMessages - 1\<close> is the signed
  reading of the 32-bit value (at \<open>totalMessages = 2^31\<close> the subtraction overflows
  \<open>int\<close>; the model wraps, as the processor does). \<open>%\<close> on \<open>int\<close> truncates towards zero
  (\<open>smod\<close>). \<open>startIdx\<close> is computed on unbounded integers: with the cursor inside the
  array it can leave the range of \<open>int\<close> only when \<open>displayCount\<close> is negative, and
  then the loop does not run and nothing reads it. A read outside the array is
  undefined in C++: the model reports \<open>OutOfBounds\<close> for the table instead of
  inventing a value.
\<close>

definition displayCount :: "state \<Rightarrow> int" where
  "displayCount s = min (sint (totalMessages s - 1)) INTERVAL_HISTORY_SIZE"

definition startIdx :: "state \<Rightarrow> int" where
  "startIdx s =
     (intervalHistoryIndex s - displayCount s + INTERVAL_HISTORY_SIZE) smod INTERVAL_HISTORY_SIZE"

definition cell_indices :: "state \<Rightarrow> int list" where
  "cell_indices s =
     map (\<lambda>i. (startIdx s + int i) smod INTERVAL_HISTORY_SIZE) [0..<nat (displayCount s)]"

definition in_array :: "state \<Rightarrow> int \<Rightarrow> bool" where
  "in_array s idx = (0 \<le> idx \<and> idx < INTERVAL_HISTORY_SIZE \<and> nat idx < length (intervalHistory s))"

definition history_table :: "state \<Rightarrow> history_view" where
  "history_table s =
     (if totalMessages s > 1 then
        (if list_all (in_array s) (cell_indices s)
         then Cells (map (\<lambda>idx. intervalHistory s ! nat idx) (cell_indices s))
         else OutOfBounds)
      else NoTable)"

definition handleStats :: "ulong \<Rightarrow> state \<Rightarrow> stats_view" where
  "handleStats millis s =
     \<lparr> shown_total = totalMessages s,
       shown_stress = stress_rows millis s,
       shown_intervals = interval_rows s,
       shown_errors = lastErrorCount s,
       shown_history = history_table s \<rparr>"

subsection \<open>Reset (\<open>handleResetStats\<close>, lines 201-222)\<close>

definition clear_history :: "ulong list \<Rightarrow> ulong list" where
  "clear_history h = fold (\<lambda>i a. a[i := 0]) [0..<nat INTERVAL_HISTORY_SIZE] h"

definition handleResetStats :: "state \<Rightarrow> state" where
  "handleResetStats s =
     s\<lparr> totalMessages := 0,
        stressTestMessages := 0,
        stressTestStartTime := 0,
        stressTestActive := False,
        lastMessageTime := 0,
        minInterval := ULONG_MAX,
        maxInterval := 0,
        totalInterval := 0,
        lastErrorCount := 0,
        intervalHistory := clear_history (intervalHistory s),
        intervalHistoryIndex := 0 \<rparr>"

subsection \<open>The web server (lines 58-103 and 266-270)\<close>

datatype response =
    RootPage int int ulong
  | DataJson int int
  | StatsPage stats_view
  | Redirect string
  | NotFound

text \<open>
  \<open>server.handleClient()\<close> with the routes registered in \<open>setup\<close>. The argument is the
  path of the pending request, if there is one.
\<close>

definition handleClient :: "ulong \<Rightarrow> string option \<Rightarrow> state \<Rightarrow> response option \<times> state" where
  "handleClient millis req s =
     (case req of
        None \<Rightarrow> (None, s)
      | Some uri \<Rightarrow>
          if uri = ''/'' then (Some (RootPage (currentPan s) (currentTilt s) (totalMessages s)), s)
          else if uri = ''/datos'' then (Some (DataJson (currentPan s) (currentTilt s)), s)
          else if uri = ''/stats'' then (Some (StatsPage (handleStats millis s)), s)
          else if uri = ''/resetstats'' then (Some (Redirect ''/stats''), handleResetStats s)
          else (Some NotFound, s))"

subsection \<open>The main loop (lines 283-313)\<close>

text \<open>What the loop prints on the serial port.\<close>

datatype serial_msg = Recibido string | AnguloMovido int | AnguloInvalido

text \<open>
  Lines 288-310. The argument is the line returned by \<open>Serial.readStringUntil\<close>,
  \<open>None\<close> when \<open>Serial.available()\<close> is 0.
\<close>

definition loop_serial :: "string option \<Rightarrow> state \<Rightarrow> serial_msg list \<times> state" where
  "loop_serial line s =
     (case line of
        None \<Rightarrow> ([], s)
      | Some angleString \<Rightarrow>
          (let s1 = s\<lparr> angulo := toInt angleString \<rparr>
           in if angulo s1 \<ge> 0 \<and> angulo s1 \<le> 180 then
                ([Recibido angleString, AnguloMovido (angulo s1)],
                 s1\<lparr> myServo := Some (angulo s1),
                     currentPan := angulo s1,
                     totalMessages := totalMessages s1 + 1 \<rparr>)
              else ([Recibido angleString, AnguloInvalido], s1)))"

definition loop :: "ulong \<Rightarrow> string option \<Rightarrow> string option \<Rightarrow> state
    \<Rightarrow> (response option \<times> serial_msg list) \<times> state" where
  "loop millis req line s =
     (let (resp, s1) = handleClient millis req s;
          (out, s2) = loop_serial line s1
      in ((resp, out), s2))"

text \<open>
  A run of the sketch is a list of loop passes, each with its clock reading, its pending
  request and its pending serial line. A sequence of submissions is a run whose passes
  carry a serial line.
\<close>

type_synonym pass = "ulong \<times> string option \<times> string option"

definition run :: "pass list \<Rightarrow> state \<Rightarrow> state" where
  "run ps s = fold (\<lambda>(millis, req, line) a. snd (loop millis req line a)) ps s"

text \<open>
  The timing and history variables as they are at startup. Nothing in the sketch
  assigns to them except \<open>handleResetStats\<close>, which assigns these same values.
\<close>

definition stats_untouched :: "state \<Rightarrow> bool" where
  "stats_untouched s =
     (intervalHistory s = replicate 100 0 \<and> intervalHistoryIndex s = 0
      \<and> minInterval s = ULONG_MAX \<and> maxInterval s = 0 \<and> totalInterval s = 0
      \<and> lastMessageTime s = 0 \<and> lastErrorCount s = 0
      \<and> stressTestMessages s = 0 \<and> stressTestStartTime s = 0 \<and> \<not> stressTestActive s)"

subsection \<open>The ring writer of the specification\<close>

text \<open>
  Modelled from the spec: the source declares the ring \<open>intervalHistory\<close> and its write
  cursor \<open>intervalHistoryIndex\<close> and reads them in \<open>handleStats\<close>, but contains no code
  that writes an interval. The specification's \<open>record\<close> (section 4.2, "overwriting the
  oldest slot once full", "write index advances modulo N") is the writer that the read
  side is compared with.
\<close>

definition spec_record :: "ulong \<Rightarrow> state \<Rightarrow> state" where
  "spec_record iv s =
     s\<lparr> intervalHistory := (intervalHistory s)[nat (intervalHistoryIndex s) := iv],
        intervalHistoryIndex := (intervalHistoryIndex s + 1) mod INTERVAL_HISTORY_SIZE \<rparr>"

definition spec_record_all :: "ulong list \<Rightarrow> state \<Rightarrow> state" where
  "spec_record_all ivs s = fold spec_record ivs s"

section \<open>Properties\<close>

subsection \<open>Parsing decimal text\<close>

lemma digit_char_props:
  assumes "d < 10"
  shows "isdigit (digit_char d)" and "(of_char (digit_char d) :: nat) - 48 = d"
  using assms by (simp_all add: isdigit_def digit_char_def)

lemma parse_digits_append:
  "list_all isdigit xs \<Longrightarrow> parse_digits acc (xs @ ys) = parse_digits (parse_digits acc xs) ys"
  by (induction xs arbitrary: acc) simp_all

lemma decimal_all_digits: "list_all isdigit (decimal n)"
proof (induction n rule: decimal.induct)
  case (1 n)
  show ?case
  proof (cases "n < 10")
    case True
    then show ?thesis by (simp add: decimal.simps [of n] digit_char_props)
  next
    case False
    then have "list_all isdigit (decimal (n div 10))" using "1.IH" by simp
    moreover have "isdigit (digit_char (n mod 10))" by (simp add: digit_char_props)
    ultimately show ?thesis using False by (simp add: decimal.simps [of n])
  qed
qed

lemma parse_digits_decimal: "parse_digits 0 (decimal n) = n"
proof (induction n rule: decimal.induct)
  case (1 n)
  show ?case
  proof (cases "n < 10")
    case True
    then show ?thesis by (simp add: decimal.simps [of n] digit_char_props)
  next
    case False
    have d: "n mod 10 < 10" by simp
    have "parse_digits 0 (decimal n) = parse_digits (n div 10) [digit_char (n mod 10)]"
      using False "1.IH" by (simp add: decimal.simps [of n] parse_digits_append decimal_all_digits)
    also have "\<dots> = n div 10 * 10 + n mod 10"
      using digit_char_props [OF d] by simp
    finally show ?thesis by simp
  qed
qed

lemma decimal_not_Nil: "decimal n \<noteq> []"
  by (subst decimal.simps) simp

lemma isdigit_not_space_sign: "isdigit c \<Longrightarrow> \<not> isspace c \<and> c \<noteq> CHR ''-'' \<and> c \<noteq> CHR ''+''"
  by (auto simp: isdigit_def isspace_def Let_def)

text \<open>Reading back the decimal text of a number that fits a \<open>long\<close> gives the number.\<close>

lemma toInt_decimal:
  assumes "n \<le> 2147483647"
  shows "toInt (decimal n) = int n"
proof -
  obtain c cs where eq: "decimal n = c # cs"
    using decimal_not_Nil [of n] by (cases "decimal n") auto
  have "isdigit c" using decimal_all_digits [of n] eq by simp
  then have c: "\<not> isspace c" "c \<noteq> CHR ''-''" "c \<noteq> CHR ''+''"
    using isdigit_not_space_sign by blast+
  have "toInt (decimal n) = min 2147483647 (int (parse_digits 0 (decimal n)))"
    using c by (simp add: toInt_def eq)
  then show ?thesis using assms by (simp add: parse_digits_decimal)
qed

text \<open>
  In general \<open>toInt\<close> reads the decimal text of an integer as that integer, brought into
  the range of \<open>long\<close>.
\<close>

lemma toInt_decimal_int: "toInt (decimal_int v) = max (- 2147483648) (min 2147483647 v)"
proof (cases "v < 0")
  case True
  have m: "\<not> isspace CHR ''-''" by (simp add: isspace_def)
  have "toInt (CHR ''-'' # decimal (nat (- v))) =
      max (- 2147483648) (- int (parse_digits 0 (decimal (nat (- v)))))"
    using m by (simp add: toInt_def)
  then show ?thesis using True by (simp add: decimal_int_def parse_digits_decimal)
next
  case False
  obtain c cs where eq: "decimal (nat v) = c # cs"
    using decimal_not_Nil [of "nat v"] by (cases "decimal (nat v)") auto
  have "isdigit c" using decimal_all_digits [of "nat v"] eq by simp
  then have c: "\<not> isspace c" "c \<noteq> CHR ''-''" "c \<noteq> CHR ''+''"
    using isdigit_not_space_sign by blast+
  have "toInt (decimal (nat v)) = min 2147483647 (int (parse_digits 0 (decimal (nat v))))"
    using c by (simp add: toInt_def eq)
  then show ?thesis using False by (simp add: decimal_int_def parse_digits_decimal)
qed

lemma toInt_examples:
  "toInt ''200'' = 200" "toInt ''abc'' = 0" "toInt ''90'' = 90" "toInt ''45'' = 45"
  "toInt ''10'' = 10" "toInt ''-5'' = - 5"
  by (simp_all add: toInt_def isspace_def isdigit_def)

lemma decimal_examples: "decimal 45 = ''45''" "decimal 180 = ''180''" "decimal 0 = ''0''"
  by code_simp+

lemma decimal_int_examples: "decimal_int 200 = ''200''" "decimal_int (- 5) = ''-5''"
  by code_simp+

subsection \<open>Rounding to a binary format\<close>

lemma ilog2_bounds: "0 < n \<Longrightarrow> 2 ^ ilog2 n \<le> n \<and> n < 2 ^ Suc (ilog2 n)"
proof (induction n rule: ilog2.induct)
  case (1 n)
  show ?case
  proof (cases "n < 2")
    case True
    with "1.prems" have "n = 1" by simp
    then show ?thesis by (simp add: ilog2.simps)
  next
    case False
    then have pos: "0 < n div 2" by simp
    from "1.IH" [OF False pos]
    have lo: "2 ^ ilog2 (n div 2) \<le> n div 2" and hi: "n div 2 < 2 ^ Suc (ilog2 (n div 2))"
      by simp_all
    have e: "ilog2 n = Suc (ilog2 (n div 2))" using False by (simp add: ilog2.simps [of n])
    have "2 * 2 ^ ilog2 (n div 2) \<le> 2 * (n div 2)" using lo by simp
    also have "\<dots> \<le> n" by simp
    finally have a: "2 ^ ilog2 n \<le> n" by (simp add: e)
    have "n div 2 + 1 \<le> 2 ^ Suc (ilog2 (n div 2))" using hi by simp
    then have "2 * (n div 2) + 2 \<le> 2 * 2 ^ Suc (ilog2 (n div 2))" by simp
    moreover have "n < 2 * (n div 2) + 2" by presburger
    ultimately have b: "n < 2 ^ Suc (ilog2 n)" by (simp add: e)
    show ?thesis using a b by simp
  qed
qed

lemma round_half_even_error: "\<bar>of_int (round_half_even x) - x\<bar> \<le> 1 / 2"
proof -
  have "of_int \<lfloor>x\<rfloor> \<le> x" "x < of_int \<lfloor>x\<rfloor> + 1" by linarith+
  then show ?thesis by (auto simp: round_half_even_def Let_def)
qed

lemma round_half_even_nonneg: "0 \<le> x \<Longrightarrow> 0 \<le> round_half_even x"
  by (auto simp: round_half_even_def Let_def)

lemma round_half_even_of_int: "round_half_even (of_int k) = k"
  by (simp add: round_half_even_def)

text \<open>\<open>exponent_of\<close> is the binary exponent, and the only one.\<close>

lemma exponent_of_bounds:
  assumes "0 < q"
  shows "2 powi (exponent_of q) \<le> q \<and> q < 2 powi (exponent_of q + 1)"
proof (cases "1 \<le> q")
  case True
  let ?n = "nat \<lfloor>q\<rfloor>"
  have fl: "1 \<le> \<lfloor>q\<rfloor>" using True by linarith
  then have pos: "0 < ?n" by simp
  have e: "exponent_of q = int (ilog2 ?n)" using True by (simp add: exponent_of_def)
  from ilog2_bounds [OF pos] have lo: "2 ^ ilog2 ?n \<le> ?n" and hi: "?n < 2 ^ Suc (ilog2 ?n)"
    by simp_all
  have nq: "(of_nat ?n :: rat) = of_int \<lfloor>q\<rfloor>" using fl by simp
  have "(2 :: rat) ^ ilog2 ?n \<le> of_nat ?n"
    using lo by (metis of_nat_le_iff of_nat_numeral of_nat_power)
  also have "\<dots> \<le> q" unfolding nq by linarith
  finally have a: "2 powi (exponent_of q) \<le> q" by (simp add: e)
  have "?n + 1 \<le> 2 ^ Suc (ilog2 ?n)" using hi by simp
  then have "(of_nat (?n + 1) :: rat) \<le> 2 ^ Suc (ilog2 ?n)"
    by (metis of_nat_le_iff of_nat_numeral of_nat_power)
  moreover have "q < of_nat (?n + 1)" using nq by (simp; linarith)
  ultimately have "q < 2 ^ Suc (ilog2 ?n)" by simp
  then have b: "q < 2 powi (exponent_of q + 1)"
    by (simp add: e power_int_add)
  show ?thesis using a b by simp
next
  case False
  then have q1: "q < 1" by simp
  let ?y = "1 / q"
  let ?n = "nat (\<lceil>?y\<rceil> - 1)"
  have y1: "1 < ?y" using assms q1 by simp
  then have c2: "2 \<le> \<lceil>?y\<rceil>" by linarith
  then have pos: "0 < ?n" by simp
  have e: "exponent_of q = - int (Suc (ilog2 ?n))" using False by (simp add: exponent_of_def)
  from ilog2_bounds [OF pos] have lo: "2 ^ ilog2 ?n \<le> ?n" and hi: "?n < 2 ^ Suc (ilog2 ?n)"
    by simp_all
  have nn: "0 \<le> \<lceil>?y\<rceil> - 1" using c2 by linarith
  have "(of_nat ?n :: rat) = of_int (\<lceil>?y\<rceil> - 1)" using nn by (rule of_nat_nat)
  then have nq: "(of_nat ?n :: rat) = of_int \<lceil>?y\<rceil> - 1" by (simp only: of_int_diff of_int_1)
  have "(2 :: rat) ^ ilog2 ?n \<le> of_nat ?n"
    using lo by (metis of_nat_le_iff of_nat_numeral of_nat_power)
  also have "\<dots> < ?y" unfolding nq by linarith
  finally have ylo: "2 ^ ilog2 ?n < ?y" .
  have "?n + 1 \<le> 2 ^ Suc (ilog2 ?n)" using hi by simp
  then have "(of_nat (?n + 1) :: rat) \<le> 2 ^ Suc (ilog2 ?n)"
    by (metis of_nat_le_iff of_nat_numeral of_nat_power)
  moreover have "?y \<le> of_nat (?n + 1)" using nq by (simp; linarith)
  ultimately have yhi: "?y \<le> 2 ^ Suc (ilog2 ?n)" by simp
  have a: "2 powi (exponent_of q) \<le> q"
  proof -
    have "1 \<le> 2 ^ Suc (ilog2 ?n) * q" using yhi assms by (simp add: field_simps)
    then have "1 / 2 ^ Suc (ilog2 ?n) \<le> q" by (simp add: field_simps)
    moreover have "(2 :: rat) powi (exponent_of q) = 1 / 2 ^ Suc (ilog2 ?n)"
      unfolding e by (simp only: power_int_minus_divide power_int_of_nat)
    ultimately show ?thesis by simp
  qed
  have b: "q < 2 powi (exponent_of q + 1)"
  proof -
    have "2 ^ ilog2 ?n * q < 1" using ylo assms by (simp add: field_simps)
    then have "q < 1 / 2 ^ ilog2 ?n" by (simp add: field_simps)
    moreover have "exponent_of q + 1 = - int (ilog2 ?n)" by (simp add: e)
    then have "(2 :: rat) powi (exponent_of q + 1) = 1 / 2 ^ ilog2 ?n"
      by (simp only: power_int_minus_divide power_int_of_nat)
    ultimately show ?thesis by simp
  qed
  show ?thesis using a b by simp
qed

lemma exponent_of_unique:
  assumes "2 powi e \<le> q" and "q < 2 powi (e + 1)"
  shows "exponent_of q = e"
proof -
  have pos: "0 < q"
  proof -
    have "(0 :: rat) < 2 powi e" by (simp add: zero_less_power_int)
    then show ?thesis using assms(1) by (rule less_le_trans)
  qed
  from exponent_of_bounds [OF pos]
  have lo: "2 powi (exponent_of q) \<le> q" and hi: "q < 2 powi (exponent_of q + 1)" by simp_all
  have 1: "e < exponent_of q + 1"
  proof (rule ccontr)
    assume "\<not> e < exponent_of q + 1"
    then have "exponent_of q + 1 \<le> e" by simp
    then have "(2 :: rat) powi (exponent_of q + 1) \<le> 2 powi e"
      by (intro power_int_increasing) simp_all
    with assms(1) hi show False by simp
  qed
  have 2: "exponent_of q < e + 1"
  proof (rule ccontr)
    assume "\<not> exponent_of q < e + 1"
    then have "e + 1 \<le> exponent_of q" by simp
    then have "(2 :: rat) powi (e + 1) \<le> 2 powi (exponent_of q)"
      by (intro power_int_increasing) simp_all
    with assms(2) lo show False by simp
  qed
  show ?thesis using 1 2 by simp
qed

lemma round_to_pos_unfold:
  assumes "0 < q"
  shows "round_to p q =
     of_int (round_half_even (q / 2 powi (exponent_of q - int p + 1))) * 2 powi (exponent_of q - int p + 1)"
  using assms by (simp add: round_to_def Let_def)

lemma round_to_eval:
  assumes "2 powi e \<le> q" and "q < 2 powi (e + 1)"
  shows "round_to p q = of_int (round_half_even (q / 2 powi (e - int p + 1))) * 2 powi (e - int p + 1)"
proof -
  have "(0 :: rat) < 2 powi e" by (simp add: zero_less_power_int)
  then have pos: "0 < q" using assms(1) by (rule less_le_trans)
  show ?thesis using round_to_pos_unfold [OF pos, of p] exponent_of_unique [OF assms] by simp
qed

text \<open>A rounded value is within a relative error of 2^-p of the exact one.\<close>

lemma round_to_error:
  assumes "0 < q"
  shows "\<bar>round_to p q - q\<bar> \<le> q / 2 ^ p"
proof -
  define e where "e = exponent_of q"
  define u :: rat where "u = 2 powi (e - int p + 1)"
  define m where "m = round_half_even (q / u)"
  have upos: "0 < u" by (simp add: u_def zero_less_power_int)
  have r: "round_to p q = of_int m * u"
    using round_to_pos_unfold [OF assms, of p] by (simp add: m_def u_def e_def)
  have "\<bar>of_int m - q / u\<bar> \<le> 1 / 2" unfolding m_def by (rule round_half_even_error)
  then have "\<bar>of_int m - q / u\<bar> * u \<le> 1 / 2 * u" using upos by (intro mult_right_mono) simp_all
  moreover have "\<bar>of_int m - q / u\<bar> * u = \<bar>of_int m * u - q\<bar>"
  proof -
    have "\<bar>of_int m - q / u\<bar> * u = \<bar>(of_int m - q / u) * u\<bar>" using upos by (simp add: abs_mult)
    also have "(of_int m - q / u) * u = of_int m * u - q" using upos by (simp add: field_simps)
    finally show ?thesis .
  qed
  ultimately have err: "\<bar>round_to p q - q\<bar> \<le> u / 2" by (simp add: r)
  have "u * 2 ^ p = 2 powi (e + 1)"
  proof -
    have "u * 2 ^ p = 2 powi (e - int p + 1) * 2 powi (int p)"
      by (simp only: u_def power_int_of_nat)
    also have "\<dots> = 2 powi (e - int p + 1 + int p)" by (subst power_int_add) simp_all
    also have "e - int p + 1 + int p = e + 1" by simp
    finally show ?thesis .
  qed
  also have "\<dots> = 2 * 2 powi e" by (simp add: power_int_add)
  finally have "u / 2 = 2 powi e / 2 ^ p" by (simp add: field_simps)
  moreover have "2 powi e \<le> q" using exponent_of_bounds [OF assms] by (simp add: e_def)
  ultimately have "u / 2 \<le> q / 2 ^ p" by (simp only: divide_right_mono zero_le_power zero_le_numeral)
  with err show ?thesis by linarith
qed

text \<open>Natural numbers below 2^p are not changed by rounding.\<close>

lemma round_to_exact_nat:
  assumes "n < 2 ^ p"
  shows "round_to p (of_nat n) = of_nat n"
proof (cases "n = 0")
  case True
  then show ?thesis by (simp add: round_to_def)
next
  case False
  then have pos: "0 < n" by simp
  from ilog2_bounds [OF pos] have lo: "2 ^ ilog2 n \<le> n" and hi: "n < 2 ^ Suc (ilog2 n)" by simp_all
  have "2 ^ ilog2 n < (2 :: nat) ^ p" using lo assms by (rule le_less_trans)
  then have lt: "ilog2 n < p" by simp
  define k where "k = p - 1 - ilog2 n"
  have ek: "int (ilog2 n) - int p + 1 = - int k" using lt by (simp add: k_def)
  have a: "(2 :: rat) powi (int (ilog2 n)) \<le> of_nat n"
    using lo by (metis of_nat_le_iff of_nat_numeral of_nat_power power_int_of_nat)
  have b: "(of_nat n :: rat) < 2 powi (int (ilog2 n) + 1)"
  proof -
    have "(of_nat n :: rat) < of_nat (2 ^ Suc (ilog2 n))" using hi by (simp only: of_nat_less_iff)
    also have "\<dots> = 2 powi (int (ilog2 n) + 1)" by (simp add: power_int_add)
    finally show ?thesis .
  qed
  have u: "(2 :: rat) powi (int (ilog2 n) - int p + 1) = 1 / 2 ^ k"
    unfolding ek by (simp only: power_int_minus_divide power_int_of_nat)
  have "of_nat n / (1 / 2 ^ k) = (of_int (int n * 2 ^ k) :: rat)" by simp
  then have "round_half_even (of_nat n / (1 / 2 ^ k)) = int n * 2 ^ k"
    by (simp only: round_half_even_of_int)
  then show ?thesis
    unfolding round_to_eval [OF a b] u by simp
qed

lemma round_half_even_near: "\<bar>x - of_int m\<bar> < 1 / 2 \<Longrightarrow> round_half_even x = m"
proof -
  assume a: "\<bar>x - of_int m\<bar> < 1 / 2"
  have f: "of_int \<lfloor>x\<rfloor> \<le> x" "x < of_int \<lfloor>x\<rfloor> + 1" by linarith+
  consider "\<lfloor>x\<rfloor> = m" | "\<lfloor>x\<rfloor> = m - 1" using a f by (cases "x < of_int m") (linarith | simp add: floor_eq_iff)+
  then show ?thesis
  proof cases
    case 1
    have "x - of_int \<lfloor>x\<rfloor> < 1 / 2" unfolding 1 using a by linarith
    then show ?thesis using 1 by (simp add: round_half_even_def Let_def)
  next
    case 2
    have "1 / 2 < x - of_int \<lfloor>x\<rfloor>" unfolding 2 using a by (simp only: of_int_diff of_int_1)
    then show ?thesis using 2 by (simp add: round_half_even_def Let_def)
  qed
qed

lemma round_half_even_tie: "x = of_int m + 1 / 2 \<Longrightarrow> even m \<Longrightarrow> round_half_even x = m"
proof -
  assume x: "x = of_int m + 1 / 2" and ev: "even m"
  have "\<lfloor>x\<rfloor> = m" unfolding x by (simp add: floor_eq_iff)
  then show ?thesis using ev by (simp add: round_half_even_def Let_def x)
qed

lemma f32_zero: "f32 0 = 0"
  by (simp add: f32_def round_to_def)

lemma f32_bounds:
  assumes "0 < q"
  shows "q * (1 - 1 / 16777216) \<le> f32 q" and "f32 q \<le> q * (1 + 1 / 16777216)"
proof -
  have "\<bar>f32 q - q\<bar> \<le> q / 2 ^ 24" unfolding f32_def using assms by (rule round_to_error)
  then have e: "\<bar>f32 q - q\<bar> \<le> q / 16777216" by simp
  have a: "q - q / 16777216 \<le> f32 q" "f32 q \<le> q + q / 16777216"
    using e by linarith+
  show "q * (1 - 1 / 16777216) \<le> f32 q"
    using a(1) by (simp only: right_diff_distrib mult_1_right times_divide_eq_right)
  show "f32 q \<le> q * (1 + 1 / 16777216)"
    using a(2) by (simp only: distrib_left mult_1_right times_divide_eq_right)
qed

lemma f32_pos: "0 < q \<Longrightarrow> 0 < f32 q"
proof -
  assume q: "0 < q"
  then have "0 < q * (1 - 1 / 16777216)" by simp
  also have "\<dots> \<le> f32 q" using q by (rule f32_bounds)
  finally show ?thesis .
qed

lemma f32_quotient_error:
  assumes S: "0 \<le> S" and D: "0 < D"
  shows "\<bar>f32 (f32 S / f32 D) - S / D\<bar> \<le> (S / D) / 4194304"
proof (cases "S = 0")
  case True
  then show ?thesis by (simp add: f32_zero)
next
  case False
  with S have Sp: "0 < S" by simp
  define c :: rat where "c = 1 / 16777216"
  have c: "0 < c" "c < 1" by (simp_all add: c_def)
  define X where "X = f32 S"
  define Y where "Y = f32 D"
  define Z where "Z = f32 (X / Y)"
  define t where "t = S / D"
  have tp: "0 < t" using Sp D by (simp add: t_def)
  have Xp: "0 < X" unfolding X_def using Sp by (rule f32_pos)
  have Yp: "0 < Y" unfolding Y_def using D by (rule f32_pos)
  have XYp: "0 < X / Y" using Xp Yp by simp
  have X1: "S * (1 - c) \<le> X" and X2: "X \<le> S * (1 + c)"
    unfolding X_def c_def using f32_bounds [OF Sp] by simp_all
  have Y1: "D * (1 - c) \<le> Y" and Y2: "Y \<le> D * (1 + c)"
    unfolding Y_def c_def using f32_bounds [OF D] by simp_all
  have Z1: "X / Y * (1 - c) \<le> Z" and Z2: "Z \<le> X / Y * (1 + c)"
    unfolding Z_def c_def using f32_bounds [OF XYp] by simp_all
  have d1: "0 < D * (1 - c)" using D c by simp
  have d2: "0 < D * (1 + c)" using D c by simp
  have up: "X / Y \<le> S * (1 + c) / (D * (1 - c))"
    using Xp X2 d1 Y1 by (intro frac_le) simp_all
  have lo: "S * (1 - c) / (D * (1 + c)) \<le> X / Y"
  proof -
    have "0 \<le> S * (1 - c)" using Sp c by simp
    then show ?thesis using X1 Yp Y2 by (intro frac_le) simp_all
  qed
  have nhi: "(1 + c) * (1 + c) / (1 - c) \<le> 1 + 4 * c" by (simp add: c_def)
  have nlo: "1 - 4 * c \<le> (1 - c) * (1 - c) / (1 + c)" by (simp add: c_def)
  have "Z \<le> S * (1 + c) / (D * (1 - c)) * (1 + c)"
    using Z2 up c by (meson add_pos_pos less_eq_rat_def mult_right_mono order.trans zero_less_one)
  also have "\<dots> = t * ((1 + c) * (1 + c) / (1 - c))" by (simp add: t_def)
  also have "\<dots> \<le> t * (1 + 4 * c)" using nhi tp by (intro mult_left_mono) simp_all
  finally have hi: "Z \<le> t * (1 + 4 * c)" .
  have "t * (1 - 4 * c) \<le> t * ((1 - c) * (1 - c) / (1 + c))"
    using nlo tp by (intro mult_left_mono) simp_all
  also have "\<dots> = S * (1 - c) / (D * (1 + c)) * (1 - c)" by (simp add: t_def)
  also have "\<dots> \<le> X / Y * (1 - c)" using lo c by (intro mult_right_mono) simp_all
  also have "\<dots> \<le> Z" by (rule Z1)
  finally have low: "t * (1 - 4 * c) \<le> Z" .
  have "\<bar>Z - t\<bar> \<le> t * (4 * c)" using hi low by (simp add: algebra_simps abs_le_iff)
  then show ?thesis by (simp add: Z_def X_def Y_def t_def c_def)
qed

lemma float_of_ulong_small: "unat w < 16777216 \<Longrightarrow> float_of_ulong w = of_nat (unat w)"
  unfolding float_of_ulong_def f32_def by (rule round_to_exact_nat) simp

lemma f64_exact_nat: "n < 9007199254740992 \<Longrightarrow> f64 (of_nat n) = of_nat n"
  unfolding f64_def by (rule round_to_exact_nat) simp

lemma double_of_ulong_exact: "double_of_ulong w = of_nat (unat w)"
proof -
  have "unat w < 4294967296" using unsigned_less [of w] by simp
  then have "unat w < 9007199254740992" by simp
  then show ?thesis unfolding double_of_ulong_def by (rule f64_exact_nat)
qed

text \<open>
  Three values of the model, for comparison with the arithmetic of the processor:
  16777217 is not a \<open>float\<close> and becomes 16777216; the mean of one interval of
  16777217 is therefore 16777216; and 1000/3, divided in \<open>double\<close> and narrowed to
  \<open>float\<close>, is 10922667/32768 = 333.3333435...
\<close>

lemma round_examples:
  "round_to 24 16777217 = 16777216"
  "round_to 53 (1000 / 3) = 5864062014805333 / 17592186044416"
  "round_to 24 (5864062014805333 / 17592186044416) = 10922667 / 32768"
  "round_to 24 16777216 = 16777216"
proof -
  have "round_to 24 16777216 =
      of_int (round_half_even (16777216 / 2 powi (24 - int 24 + 1))) * 2 powi (24 - int 24 + 1)"
    by (rule round_to_eval) simp_all
  moreover have "round_half_even (16777216 / 2) = 8388608"
    by (rule round_half_even_near) simp
  ultimately show "round_to 24 16777216 = 16777216" by simp
  have "round_to 24 16777217 =
      of_int (round_half_even (16777217 / 2 powi (24 - int 24 + 1))) * 2 powi (24 - int 24 + 1)"
    by (rule round_to_eval) simp_all
  moreover have "round_half_even (16777217 / 2) = 8388608"
    by (rule round_half_even_tie) simp_all
  ultimately show "round_to 24 16777217 = 16777216" by simp
  have "round_to 53 (1000 / 3) =
      of_int (round_half_even (1000 / 3 / 2 powi (8 - int 53 + 1))) * 2 powi (8 - int 53 + 1)"
    by (rule round_to_eval) simp_all
  moreover have "round_half_even (17592186044416000 / 3) = 5864062014805333"
    by (rule round_half_even_near) simp
  ultimately show "round_to 53 (1000 / 3) = 5864062014805333 / 17592186044416" by simp
  have "round_to 24 (5864062014805333 / 17592186044416) =
      of_int (round_half_even (5864062014805333 / 17592186044416 / 2 powi (8 - int 24 + 1)))
        * 2 powi (8 - int 24 + 1)"
    by (rule round_to_eval) simp_all
  moreover have "round_half_even (5864062014805333 / 536870912) = 10922667"
    by (rule round_half_even_near) simp
  ultimately show "round_to 24 (5864062014805333 / 17592186044416) = 10922667 / 32768" by simp
qed

lemma float_examples:
  "float_of_ulong 16777217 = 16777216"
  "mean_interval 16777217 1 = Fin 16777216"
  "messagesPerSecond 1 3 = Fin (10922667 / 32768)"
proof -
  show a: "float_of_ulong 16777217 = 16777216"
    by (simp add: float_of_ulong_def f32_def round_examples)
  have "float_of_ulong 1 = 1" using float_of_ulong_small [of 1] by simp
  then show "mean_interval 16777217 1 = Fin 16777216"
    by (simp add: mean_interval_def fdiv_def a) (simp add: f32_def round_examples)
  have "f64 1000 = 1000" using f64_exact_nat [of 1000] by simp
  then show "messagesPerSecond 1 3 = Fin (10922667 / 32768)"
    by (simp add: messagesPerSecond_def double_of_ulong_exact fdiv_def)
       (simp add: f64_def f32_def round_examples)
qed

subsection \<open>The history table on a well-formed ring\<close>

lemma sint_small: "uint w < 2147483648 \<Longrightarrow> sint (w :: 32 word) = uint w"
proof -
  assume a: "uint w < 2147483648"
  have "sint (word_of_int (uint w) :: 32 word) = (uint w + 2147483648) mod 4294967296 - 2147483648"
    using int_word_sint [of "uint w", where 'a = 32] by simp
  moreover have "(uint w + 2147483648) mod 4294967296 = uint w + 2147483648"
    using a by (simp add: mod_pos_pos_trivial)
  ultimately show ?thesis by simp
qed

lemma sint_big: "2147483648 \<le> uint w \<Longrightarrow> sint (w :: 32 word) = uint w - 4294967296"
proof -
  assume a: "2147483648 \<le> uint w"
  have b: "uint w < 4294967296" using uint_lt2p [of w] by simp
  have "sint (word_of_int (uint w) :: 32 word) = (uint w + 2147483648) mod 4294967296 - 2147483648"
    using int_word_sint [of "uint w", where 'a = 32] by simp
  moreover have "(uint w + 2147483648) mod 4294967296 = uint w + 2147483648 - 4294967296"
    using a b by (simp add: mod_pos_geq mod_pos_pos_trivial)
  ultimately show ?thesis by simp
qed

lemma uint_pred: "1 \<le> uint (w :: 32 word) \<Longrightarrow> uint (w - 1) = uint w - 1"
  by (simp add: uint_sub_if' split: if_splits)

lemma word_gt_one_uint: "((w :: 32 word) > 1) = (1 < uint w)"
  by (simp add: word_less_def)

lemma displayCount_small:
  assumes "1 \<le> uint (totalMessages s)" and "uint (totalMessages s) < 2147483648"
  shows "displayCount s = min (uint (totalMessages s) - 1) 100"
proof -
  have "uint (totalMessages s - 1) = uint (totalMessages s) - 1"
    using assms(1) by (rule uint_pred)
  then have "sint (totalMessages s - 1) = uint (totalMessages s) - 1"
    using assms(2) sint_small [of "totalMessages s - 1"] by simp
  then show ?thesis by (simp add: displayCount_def INTERVAL_HISTORY_SIZE_def)
qed

lemma displayCount_big:
  assumes "2147483648 < uint (totalMessages s)"
  shows "displayCount s < 0"
proof -
  have "uint (totalMessages s - 1) = uint (totalMessages s) - 1"
    using assms by (intro uint_pred) simp
  then have "sint (totalMessages s - 1) = uint (totalMessages s) - 1 - 4294967296"
    using assms sint_big [of "totalMessages s - 1"] by simp
  moreover have "uint (totalMessages s) < 4294967296" using uint_lt2p [of "totalMessages s"] by simp
  ultimately show ?thesis by (simp add: displayCount_def INTERVAL_HISTORY_SIZE_def)
qed

lemma smod_100: "0 \<le> k \<Longrightarrow> k smod (100 :: int) = k mod 100"
  by (cases "k = 0") (simp_all add: signed_modulo_int_def sgn_if)

lemma cell_indices_wf:
  assumes cur: "0 \<le> intervalHistoryIndex s" "intervalHistoryIndex s < 100"
    and dc: "displayCount s \<le> 100"
  shows "cell_indices s =
     map (\<lambda>i. (intervalHistoryIndex s - displayCount s + int i) mod 100) [0..<nat (displayCount s)]"
proof -
  have nn: "0 \<le> intervalHistoryIndex s - displayCount s + 100" using cur dc by simp
  have st: "startIdx s = (intervalHistoryIndex s - displayCount s + 100) mod 100"
    using nn by (simp add: startIdx_def INTERVAL_HISTORY_SIZE_def smod_100)
  have "(startIdx s + int i) smod 100 = (intervalHistoryIndex s - displayCount s + int i) mod 100" for i
  proof -
    have "0 \<le> startIdx s + int i" by (simp add: st)
    then have "(startIdx s + int i) smod 100 = (startIdx s + int i) mod 100" by (rule smod_100)
    also have "\<dots> = (intervalHistoryIndex s - displayCount s + 100 + int i) mod 100"
      unfolding st by (rule mod_add_left_eq)
    also have "intervalHistoryIndex s - displayCount s + 100 + int i =
        (intervalHistoryIndex s - displayCount s + int i) + 100"
      by simp
    also have "\<dots> mod 100 = (intervalHistoryIndex s - displayCount s + int i) mod 100"
      by (rule mod_add_self2)
    finally show ?thesis .
  qed
  then show ?thesis by (simp add: cell_indices_def INTERVAL_HISTORY_SIZE_def)
qed

lemma history_table_wf:
  assumes len: "length (intervalHistory s) = 100"
    and cur: "0 \<le> intervalHistoryIndex s" "intervalHistoryIndex s < 100"
    and tot: "1 < uint (totalMessages s)" "uint (totalMessages s) < 2147483648"
  shows "history_table s =
     Cells (map (\<lambda>i. intervalHistory s ! nat ((intervalHistoryIndex s - displayCount s + int i) mod 100))
              [0..<nat (displayCount s)])"
proof -
  have dc: "displayCount s \<le> 100" using displayCount_small [of s] tot by simp
  have ci: "cell_indices s =
     map (\<lambda>i. (intervalHistoryIndex s - displayCount s + int i) mod 100) [0..<nat (displayCount s)]"
    using cur dc by (rule cell_indices_wf)
  have "in_array s ((intervalHistoryIndex s - displayCount s + int i) mod 100)" for i
    by (simp add: in_array_def INTERVAL_HISTORY_SIZE_def len)
  then have "list_all (in_array s) (cell_indices s)"
    by (simp add: ci list_all_iff)
  moreover have "totalMessages s > 1" using tot by (simp add: word_gt_one_uint)
  ultimately show ?thesis by (simp add: history_table_def ci comp_def)
qed

subsection \<open>One serial line\<close>

lemma loop_serial_accept:
  assumes "0 \<le> toInt line" and "toInt line \<le> 180"
  shows "loop_serial (Some line) s =
     ([Recibido line, AnguloMovido (toInt line)],
      s\<lparr> angulo := toInt line, myServo := Some (toInt line), currentPan := toInt line,
         totalMessages := totalMessages s + 1 \<rparr>)"
  using assms by (simp add: loop_serial_def Let_def)

lemma loop_serial_reject:
  assumes "toInt line < 0 \<or> 180 < toInt line"
  shows "loop_serial (Some line) s = ([Recibido line, AnguloInvalido], s\<lparr> angulo := toInt line \<rparr>)"
  using assms by (auto simp: loop_serial_def Let_def)

lemma ulong_succ:
  assumes "(x :: ulong) \<noteq> ULONG_MAX"
  shows "unat (x + 1) = unat x + 1"
proof -
  have b: "unat x < 4294967296" using unsigned_less [of x] by simp
  have "unat x \<noteq> unat (4294967295 :: 32 word)"
    using assms by (simp add: word_unat_eq_iff ULONG_MAX_def)
  then have "unat x \<noteq> 4294967295" by simp
  with b have "unat x + 1 < 4294967296" by simp
  then show ?thesis by (simp add: unat_word_ariths)
qed

text \<open>
  C1 (as amended). Every integer outside [0,180], submitted as its decimal text, is
  rejected: the loop prints the invalid-angle message, the count of successful commands
  and the position are unchanged, and no timing or history variable is touched. (Text
  that is not a number is left out of the amended claim, and so is the error counter.)
\<close>

theorem C1_out_of_range_rejected:
  assumes "v < 0 \<or> 180 < v"
  shows "fst (loop_serial (Some (decimal_int v)) s) = [Recibido (decimal_int v), AnguloInvalido]
    \<and> totalMessages (snd (loop_serial (Some (decimal_int v)) s)) = totalMessages s
    \<and> currentPan (snd (loop_serial (Some (decimal_int v)) s)) = currentPan s
    \<and> myServo (snd (loop_serial (Some (decimal_int v)) s)) = myServo s
    \<and> lastMessageTime (snd (loop_serial (Some (decimal_int v)) s)) = lastMessageTime s
    \<and> minInterval (snd (loop_serial (Some (decimal_int v)) s)) = minInterval s
    \<and> maxInterval (snd (loop_serial (Some (decimal_int v)) s)) = maxInterval s
    \<and> totalInterval (snd (loop_serial (Some (decimal_int v)) s)) = totalInterval s
    \<and> intervalHistory (snd (loop_serial (Some (decimal_int v)) s)) = intervalHistory s
    \<and> intervalHistoryIndex (snd (loop_serial (Some (decimal_int v)) s)) = intervalHistoryIndex s
    \<and> stressTestMessages (snd (loop_serial (Some (decimal_int v)) s)) = stressTestMessages s
    \<and> stressTestStartTime (snd (loop_serial (Some (decimal_int v)) s)) = stressTestStartTime s
    \<and> stressTestActive (snd (loop_serial (Some (decimal_int v)) s)) = stressTestActive s"
proof -
  have "toInt (decimal_int v) < 0 \<or> 180 < toInt (decimal_int v)"
    using assms by (auto simp: toInt_decimal_int)
  then show ?thesis by (simp add: loop_serial_reject)
qed

theorem C1_out_of_range_rejected_witness:
  "fst (loop_serial (Some ''200'') initial) = [Recibido ''200'', AnguloInvalido]
   \<and> totalMessages (snd (loop_serial (Some ''200'') initial)) = totalMessages initial
   \<and> currentPan (snd (loop_serial (Some ''200'') initial)) = 90
   \<and> fst (loop_serial (Some ''-5'') initial) = [Recibido ''-5'', AnguloInvalido]
   \<and> totalMessages (snd (loop_serial (Some ''-5'') initial)) = totalMessages initial
   \<and> intervalHistory (snd (loop_serial (Some ''-5'') initial)) = intervalHistory initial"
proof -
  have a: "(200 :: int) < 0 \<or> 180 < (200 :: int)" and b: "(- 5 :: int) < 0 \<or> 180 < (- 5 :: int)"
    by simp_all
  have "currentPan initial = 90" by (simp add: initial_def)
  then show ?thesis
    using C1_out_of_range_rejected [OF a, of initial] C1_out_of_range_rejected [OF b, of initial]
    by (simp add: decimal_int_examples)
qed

text \<open>
  C1 as the specification states it fails twice. The out-of-range line \<open>200\<close> is
  rejected, but the error counter stays at 0 instead of becoming 1. The non-numeric line
  \<open>abc\<close> is not rejected at all: \<open>toInt\<close> reads it as 0, the servo moves to 0 and the
  message count goes up.
\<close>

theorem C1_counterexample:
  "fst (loop_serial (Some ''200'') initial) = [Recibido ''200'', AnguloInvalido]
   \<and> lastErrorCount (snd (loop_serial (Some ''200'') initial)) \<noteq> lastErrorCount initial + 1
   \<and> fst (loop_serial (Some ''abc'') initial) = [Recibido ''abc'', AnguloMovido 0]
   \<and> totalMessages (snd (loop_serial (Some ''abc'') initial)) \<noteq> totalMessages initial"
  by (simp add: loop_serial_def Let_def toInt_examples initial_def)

text \<open>
  C2. For every integer \<open>v\<close> in [0,180], submitted as its decimal text, the loop accepts
  the line: it writes \<open>v\<close> to the servo, sets \<open>currentPan\<close> to \<open>v\<close> and increments
  \<open>totalMessages\<close> by one, leaving everything else as it was. The counter is a 32-bit
  unsigned value, so the increment is the machine's: below \<open>ULONG_MAX\<close> the count as a
  number grows by exactly 1.
\<close>

theorem C2_valid_command_applied:
  assumes "0 \<le> v" and "v \<le> 180"
  shows "loop_serial (Some (decimal (nat v))) s =
           ([Recibido (decimal (nat v)), AnguloMovido v],
            s\<lparr> angulo := v, myServo := Some v, currentPan := v,
               totalMessages := totalMessages s + 1 \<rparr>)
    \<and> currentPan (snd (loop_serial (Some (decimal (nat v))) s)) = v
    \<and> myServo (snd (loop_serial (Some (decimal (nat v))) s)) = Some v
    \<and> totalMessages (snd (loop_serial (Some (decimal (nat v))) s)) = totalMessages s + 1
    \<and> (totalMessages s \<noteq> ULONG_MAX \<longrightarrow>
         unat (totalMessages (snd (loop_serial (Some (decimal (nat v))) s))) = unat (totalMessages s) + 1)"
proof -
  have t: "toInt (decimal (nat v)) = v"
    using assms toInt_decimal [of "nat v"] by simp
  have 1: "loop_serial (Some (decimal (nat v))) s =
           ([Recibido (decimal (nat v)), AnguloMovido v],
            s\<lparr> angulo := v, myServo := Some v, currentPan := v,
               totalMessages := totalMessages s + 1 \<rparr>)"
    using loop_serial_accept [of "decimal (nat v)" s] assms t by simp
  show ?thesis by (simp add: 1 ulong_succ)
qed

theorem C2_valid_command_witness:
  "loop_serial (Some ''45'') initial =
     ([Recibido ''45'', AnguloMovido 45],
      initial\<lparr> angulo := 45, myServo := Some 45, currentPan := 45, totalMessages := 1 \<rparr>)
   \<and> unat (totalMessages (snd (loop_serial (Some ''45'') initial))) = unat (totalMessages initial) + 1"
  using C2_valid_command_applied [of 45 initial]
  by (simp add: decimal_examples initial_def ULONG_MAX_def)

subsection \<open>The ring after a number of writes\<close>

lemma spec_record_all_snoc: "spec_record_all (ivs @ [x]) s = spec_record x (spec_record_all ivs s)"
  by (simp add: spec_record_all_def)

lemma mod_100_distinct:
  assumes "(k :: nat) < n" and "n - k < 100"
  shows "k mod 100 \<noteq> n mod 100"
proof
  assume "k mod 100 = n mod 100"
  then have "n mod 100 = k mod 100" by simp
  then have "100 dvd n - k" using assms(1) by (simp add: mod_eq_dvd_iff_nat)
  moreover have "0 < n - k" using assms(1) by simp
  ultimately have "100 \<le> n - k" by (rule dvd_imp_le)
  with assms(2) show False by simp
qed

lemma ring_after_records:
  assumes "length (intervalHistory s) = 100" and "intervalHistoryIndex s = 0"
  shows "length (intervalHistory (spec_record_all ivs s)) = 100
    \<and> intervalHistoryIndex (spec_record_all ivs s) = int (length ivs mod 100)
    \<and> (\<forall>k. k < length ivs \<and> length ivs \<le> k + 100 \<longrightarrow>
          intervalHistory (spec_record_all ivs s) ! (k mod 100) = ivs ! k)"
proof (induction ivs rule: rev_induct)
  case Nil
  show ?case using assms by (simp add: spec_record_all_def)
next
  case (snoc x ivs)
  let ?r = "spec_record_all ivs s"
  let ?n = "length ivs"
  from snoc have len: "length (intervalHistory ?r) = 100"
    and cur: "intervalHistoryIndex ?r = int (?n mod 100)"
    and old: "\<And>k. k < ?n \<Longrightarrow> ?n \<le> k + 100 \<Longrightarrow> intervalHistory ?r ! (k mod 100) = ivs ! k"
    by simp_all
  have h': "intervalHistory (spec_record_all (ivs @ [x]) s) = (intervalHistory ?r)[?n mod 100 := x]"
    by (simp add: spec_record_all_snoc spec_record_def cur)
  have c': "intervalHistoryIndex (spec_record_all (ivs @ [x]) s) = int (Suc ?n mod 100)"
  proof -
    have "intervalHistoryIndex (spec_record_all (ivs @ [x]) s) = (int (?n mod 100) + 1) mod 100"
      by (simp add: spec_record_all_snoc spec_record_def cur INTERVAL_HISTORY_SIZE_def)
    also have "\<dots> = int ((?n mod 100 + 1) mod 100)" by (simp add: zmod_int add.commute)
    also have "(?n mod 100 + 1) mod 100 = Suc ?n mod 100" by (simp add: mod_Suc_eq)
    finally show ?thesis .
  qed
  have cells: "intervalHistory (spec_record_all (ivs @ [x]) s) ! (k mod 100) = (ivs @ [x]) ! k"
    if k: "k < length (ivs @ [x])" "length (ivs @ [x]) \<le> k + 100" for k
  proof (cases "k = ?n")
    case True
    then show ?thesis by (simp add: h' len)
  next
    case False
    with k have lt: "k < ?n" and near: "?n \<le> k + 100" and gap: "?n - k < 100" by simp_all
    have "k mod 100 \<noteq> ?n mod 100"
      using lt gap by (rule mod_100_distinct)
    then have "intervalHistory (spec_record_all (ivs @ [x]) s) ! (k mod 100) = intervalHistory ?r ! (k mod 100)"
      by (simp add: h')
    also have "\<dots> = ivs ! k" using lt near by (rule old)
    finally show ?thesis using lt by (simp add: nth_append)
  qed
  show ?case using c' cells by (simp add: h' len)
qed

lemma uint_of_nat_small: "n < 4294967296 \<Longrightarrow> uint (of_nat n :: 32 word) = int n"
  by (simp add: uint_nat unat_of_nat)

lemma ring_index:
  assumes "m \<le> n" and "m \<le> 100"
  shows "nat ((int (n mod 100) - int m + int i) mod 100) = (n - m + i) mod 100"
proof -
  have "(int (n mod 100) - int m + int i) mod 100 = (int n mod 100 - int m + int i) mod 100"
    by (simp add: zmod_int)
  also have "\<dots> = ((int n mod 100 - int m) mod 100 + int i) mod 100"
    by (simp add: mod_add_left_eq)
  also have "(int n mod 100 - int m) mod 100 = (int n - int m) mod 100"
    by (rule mod_diff_left_eq)
  also have "((int n - int m) mod 100 + int i) mod 100 = (int n - int m + int i) mod 100"
    by (rule mod_add_left_eq)
  also have "int n - int m + int i = int (n - m + i)" using assms(1) by simp
  also have "int (n - m + i) mod 100 = int ((n - m + i) mod 100)" by (simp add: zmod_int)
  finally show ?thesis by simp
qed

lemma history_of_ring:
  assumes len: "length (intervalHistory s0) = 100" and cur: "intervalHistoryIndex s0 = 0"
    and tot: "uint t = int (length ivs) + 1"
    and bound: "int (length ivs) + 1 < 2147483648"
    and pos: "ivs \<noteq> []"
  shows "history_table ((spec_record_all ivs s0)\<lparr> totalMessages := t \<rparr>) =
           Cells (drop (length ivs - 100) ivs)"
proof -
  let ?r = "spec_record_all ivs s0"
  let ?s = "?r\<lparr> totalMessages := t \<rparr>"
  let ?n = "length ivs"
  let ?m = "min ?n 100"
  from ring_after_records [OF len cur, of ivs]
  have rlen: "length (intervalHistory ?r) = 100"
    and rcur: "intervalHistoryIndex ?r = int (?n mod 100)"
    and cells: "\<And>k. k < ?n \<Longrightarrow> ?n \<le> k + 100 \<Longrightarrow> intervalHistory ?r ! (k mod 100) = ivs ! k"
    by simp_all
  have dc: "displayCount ?s = int ?m"
    using displayCount_small [of ?s] tot bound by simp
  have "history_table ?s =
     Cells (map (\<lambda>i. intervalHistory ?s ! nat ((intervalHistoryIndex ?s - displayCount ?s + int i) mod 100))
              [0..<nat (displayCount ?s)])"
    using pos bound tot by (intro history_table_wf) (simp_all add: rlen rcur)
  also have "map (\<lambda>i. intervalHistory ?s ! nat ((intervalHistoryIndex ?s - displayCount ?s + int i) mod 100))
              [0..<nat (displayCount ?s)] = drop (?n - 100) ivs"
  proof (rule nth_equalityI)
    show "length (map (\<lambda>i. intervalHistory ?s ! nat ((intervalHistoryIndex ?s - displayCount ?s + int i) mod 100))
              [0..<nat (displayCount ?s)]) = length (drop (?n - 100) ivs)"
      by (simp add: dc)
  next
    fix i
    assume "i < length (map (\<lambda>i. intervalHistory ?s ! nat ((intervalHistoryIndex ?s - displayCount ?s + int i) mod 100))
              [0..<nat (displayCount ?s)])"
    then have i: "i < ?m" by (simp add: dc)
    have idx: "nat ((int (?n mod 100) - int ?m + int i) mod 100) = (?n - ?m + i) mod 100"
      by (rule ring_index) simp_all
    have "intervalHistory ?r ! ((?n - ?m + i) mod 100) = ivs ! (?n - ?m + i)"
      using i by (intro cells) (auto simp: min_def split: if_splits)
    moreover have "?n - ?m = ?n - 100" by simp
    ultimately have "intervalHistory ?r ! ((?n - ?m + i) mod 100) = drop (?n - 100) ivs ! i"
      using i by simp
    then show "map (\<lambda>i. intervalHistory ?s ! nat ((intervalHistoryIndex ?s - displayCount ?s + int i) mod 100))
              [0..<nat (displayCount ?s)] ! i = drop (?n - 100) ivs ! i"
      using i idx by (simp add: dc rcur)
  qed
  finally show ?thesis .
qed

subsection \<open>Reset, and what a run leaves untouched\<close>

lemma clear_prefix:
  "n \<le> length h \<Longrightarrow> fold (\<lambda>i a. a[i := 0]) [0..<n] h = replicate n (0 :: ulong) @ drop n h"
proof (induction n)
  case 0
  show ?case by simp
next
  case (Suc n)
  then have lt: "n < length h" and IH: "fold (\<lambda>i a. a[i := 0]) [0..<n] h = replicate n 0 @ drop n h"
    by simp_all
  have "fold (\<lambda>i a. a[i := 0]) [0..<Suc n] h = (replicate n 0 @ drop n h)[n := 0]"
    by (simp add: IH)
  also have "\<dots> = replicate n 0 @ (drop n h)[0 := 0]"
    by (simp add: list_update_append)
  also have "drop n h = h ! n # drop (Suc n) h"
    using lt by (simp add: Cons_nth_drop_Suc)
  finally show ?case by (simp add: replicate_append_same)
qed

lemma clear_history_100: "length h = 100 \<Longrightarrow> clear_history h = replicate 100 0"
  using clear_prefix [of 100 h] by (simp add: clear_history_def INTERVAL_HISTORY_SIZE_def)

lemma handleResetStats_initial:
  assumes "length (intervalHistory s) = 100"
  shows "handleResetStats s =
     initial\<lparr> currentPan := currentPan s, currentTilt := currentTilt s,
              myServo := myServo s, angulo := angulo s \<rparr>"
  by (simp add: handleResetStats_def initial_def clear_history_100 [OF assms])

lemma stats_untouched_initial: "stats_untouched initial"
  by (simp add: stats_untouched_def initial_def)

lemma stats_untouched_reset: "stats_untouched s \<Longrightarrow> stats_untouched (handleResetStats s)"
  by (simp add: stats_untouched_def handleResetStats_def clear_history_100)

lemma stats_untouched_handleClient:
  "stats_untouched s \<Longrightarrow> stats_untouched (snd (handleClient millis req s))"
  by (cases req) (simp_all add: handleClient_def stats_untouched_reset)

lemma stats_untouched_loop_serial:
  "stats_untouched s \<Longrightarrow> stats_untouched (snd (loop_serial line s))"
  by (cases line) (simp_all add: loop_serial_def Let_def stats_untouched_def)

lemma loop_state:
  "snd (loop millis req line s) = snd (loop_serial line (snd (handleClient millis req s)))"
  by (simp add: loop_def case_prod_beta)

lemma stats_untouched_loop:
  "stats_untouched s \<Longrightarrow> stats_untouched (snd (loop millis req line s))"
  by (simp add: loop_state stats_untouched_handleClient stats_untouched_loop_serial)

lemma run_snoc: "run (ps @ [(millis, req, line)]) s = snd (loop millis req line (run ps s))"
  by (simp add: run_def)

lemma stats_untouched_run: "stats_untouched s \<Longrightarrow> stats_untouched (run ps s)"
proof (induction ps rule: rev_induct)
  case Nil
  then show ?case by (simp add: run_def)
next
  case (snoc p ps)
  obtain millis req line where p: "p = (millis, req, line)" by (cases p) auto
  show ?case using snoc by (simp add: p run_snoc stats_untouched_loop)
qed

text \<open>No run starts a stress test: the page never has stress-test rows.\<close>

lemma no_stress_rows_on_runs: "shown_stress (handleStats millis (run ps initial)) = NoStress"
proof -
  have "stats_untouched (run ps initial)"
    using stats_untouched_initial by (rule stats_untouched_run)
  then show ?thesis by (simp add: stats_untouched_def handleStats_def stress_rows_def)
qed

lemma currentTilt_loop: "currentTilt (snd (loop millis req line s)) = currentTilt s"
proof -
  have a: "currentTilt (snd (handleClient millis req s)) = currentTilt s"
    by (cases req) (simp_all add: handleClient_def handleResetStats_def)
  have b: "currentTilt (snd (loop_serial line s')) = currentTilt s'" for s'
    by (cases line) (simp_all add: loop_serial_def Let_def)
  show ?thesis by (simp add: loop_state a b)
qed

lemma currentTilt_run: "currentTilt (run ps s) = currentTilt s"
proof (induction ps rule: rev_induct)
  case Nil
  then show ?case by (simp add: run_def)
next
  case (snoc p ps)
  obtain millis req line where p: "p = (millis, req, line)" by (cases p) auto
  show ?case using snoc by (simp add: p run_snoc currentTilt_loop)
qed

lemma history_table_untouched:
  assumes "stats_untouched s" and "uint (totalMessages s) < 2147483648"
  shows "history_table s =
     (if totalMessages s > 1 then Cells (replicate (nat (min (uint (totalMessages s) - 1) 100)) 0)
      else NoTable)"
proof (cases "totalMessages s > 1")
  case False
  then show ?thesis by (simp add: history_table_def)
next
  case True
  then have t: "1 < uint (totalMessages s)" by (simp add: word_gt_one_uint)
  have h: "intervalHistory s = replicate 100 0" and c: "intervalHistoryIndex s = 0"
    using assms(1) by (simp_all add: stats_untouched_def)
  have dc: "displayCount s = min (uint (totalMessages s) - 1) 100"
    using displayCount_small [of s] t assms(2) by simp
  have "history_table s =
     Cells (map (\<lambda>i. intervalHistory s ! nat ((intervalHistoryIndex s - displayCount s + int i) mod 100))
              [0..<nat (displayCount s)])"
    using t assms(2) by (intro history_table_wf) (simp_all add: h c)
  also have "map (\<lambda>i. intervalHistory s ! nat ((intervalHistoryIndex s - displayCount s + int i) mod 100))
              [0..<nat (displayCount s)] = map (\<lambda>i. 0) [0..<nat (displayCount s)]"
    by (rule map_cong) (simp_all add: h nat_less_iff)
  finally show ?thesis using True by (simp add: dc map_replicate_const)
qed

lemma run_examples:
  "run [(0, None, Some ''90''), (10, None, Some ''45'')] initial =
     initial\<lparr> angulo := 45, myServo := Some 45, currentPan := 45, totalMessages := 2 \<rparr>"
  "run [(0, None, Some ''90''), (10, None, Some ''45''), (20, None, Some ''10'')] initial =
     initial\<lparr> angulo := 10, myServo := Some 10, currentPan := 10, totalMessages := 3 \<rparr>"
  "run [(0, None, Some ''90'')] initial =
     initial\<lparr> angulo := 90, myServo := Some 90, currentPan := 90, totalMessages := 1 \<rparr>"
  "run [(4294967280, None, Some ''90''), (32, None, Some ''45'')] initial =
     initial\<lparr> angulo := 45, myServo := Some 45, currentPan := 45, totalMessages := 2 \<rparr>"
  by (simp_all add: run_def loop_def handleClient_def loop_serial_def Let_def toInt_examples initial_def)

text \<open>What the page shows after two successful commands and no reset since.\<close>

lemma page_after_two_commands:
  assumes u: "stats_untouched s" and t: "totalMessages s = 2"
  shows "handleStats millis s =
       \<lparr> shown_total = 2, shown_stress = NoStress,
         shown_intervals = Some (IntervalStats 4294967295 0 (Fin 0)),
         shown_errors = 0, shown_history = Cells [0] \<rparr>"
proof -
  have h: "history_table s = Cells [0]"
    using history_table_untouched [OF u] by (simp add: t)
  have "float_of_ulong 0 = 0" "float_of_ulong 1 = 1"
    using float_of_ulong_small [of 0] float_of_ulong_small [of 1] by simp_all
  then have m: "mean_interval 0 1 = Fin 0"
    by (simp add: mean_interval_def fdiv_def f32_zero)
  show ?thesis
    using u by (simp add: handleStats_def stress_rows_def interval_rows_def h t m
        stats_untouched_def ULONG_MAX_def)
qed

subsection \<open>Claims about the statistics\<close>

text \<open>
  C3. The claim: after every sequence of submissions the number of intervals recorded
  is the number of successful commands minus one, and the history holds
  min(total - 1, 100) of them. The loop does not do that. After the two successful
  commands \<open>90\<close> and \<open>45\<close>, 10 ms apart, the total is 2 and one interval should have
  been recorded; but the write cursor is still 0, every slot of the ring is 0, the sum
  and the maximum are 0, the minimum is still \<open>ULONG_MAX\<close> and no timestamp was
  stored. The page then shows a minimum of 4294967295, a mean of 0 and one history
  cell holding 0.
\<close>

theorem C3_two_commands_record_nothing:
  "totalMessages (run [(0, None, Some ''90''), (10, None, Some ''45'')] initial) = 2
   \<and> intervalHistoryIndex (run [(0, None, Some ''90''), (10, None, Some ''45'')] initial) = 0
   \<and> intervalHistory (run [(0, None, Some ''90''), (10, None, Some ''45'')] initial) = replicate 100 0
   \<and> totalInterval (run [(0, None, Some ''90''), (10, None, Some ''45'')] initial) = 0
   \<and> minInterval (run [(0, None, Some ''90''), (10, None, Some ''45'')] initial) = ULONG_MAX
   \<and> maxInterval (run [(0, None, Some ''90''), (10, None, Some ''45'')] initial) = 0
   \<and> lastMessageTime (run [(0, None, Some ''90''), (10, None, Some ''45'')] initial) = 0
   \<and> handleStats 20 (run [(0, None, Some ''90''), (10, None, Some ''45'')] initial) =
       \<lparr> shown_total = 2, shown_stress = NoStress,
         shown_intervals = Some (IntervalStats 4294967295 0 (Fin 0)),
         shown_errors = 0, shown_history = Cells [0] \<rparr>"
proof -
  let ?s = "run [(0, None, Some ''90''), (10, None, Some ''45'')] initial"
  have u: "stats_untouched ?s" using stats_untouched_initial by (rule stats_untouched_run)
  have t: "totalMessages ?s = 2" by (simp add: run_examples)
  show ?thesis
    using u t page_after_two_commands [OF u t, of 20] by (simp add: stats_untouched_def)
qed

text \<open>
  C4. A reset followed at once by the statistics page: the page shows a total of 0, no
  errors, no interval rows (so no minimum, maximum or mean), no history table and no
  stress-test rows. In the state, the minimum is \<open>ULONG_MAX\<close> (unset), the maximum and
  the sum are 0, all 100 slots of the ring are 0 and the cursor is 0, and no stress
  test is active: every statistics variable has its startup value. The array has 100
  slots in the source; that is the hypothesis on the list.
\<close>

theorem C4_reset_then_snapshot:
  assumes "length (intervalHistory s) = 100"
  shows "handleStats millis (handleResetStats s) =
           \<lparr> shown_total = 0, shown_stress = NoStress, shown_intervals = None,
             shown_errors = 0, shown_history = NoTable \<rparr>
    \<and> handleResetStats s =
         initial\<lparr> currentPan := currentPan s, currentTilt := currentTilt s,
                  myServo := myServo s, angulo := angulo s \<rparr>
    \<and> totalMessages (handleResetStats s) = 0
    \<and> lastErrorCount (handleResetStats s) = 0
    \<and> minInterval (handleResetStats s) = ULONG_MAX
    \<and> maxInterval (handleResetStats s) = 0
    \<and> totalInterval (handleResetStats s) = 0
    \<and> intervalHistory (handleResetStats s) = replicate 100 0
    \<and> intervalHistoryIndex (handleResetStats s) = 0
    \<and> stressTestActive (handleResetStats s) = False
    \<and> stressTestMessages (handleResetStats s) = 0"
proof -
  have v: "handleStats millis (handleResetStats s) =
           \<lparr> shown_total = 0, shown_stress = NoStress, shown_intervals = None,
             shown_errors = 0, shown_history = NoTable \<rparr>"
    by (simp add: handleStats_def handleResetStats_def stress_rows_def interval_rows_def
        history_table_def)
  have r: "handleResetStats s =
         initial\<lparr> currentPan := currentPan s, currentTilt := currentTilt s,
                  myServo := myServo s, angulo := angulo s \<rparr>"
    using assms by (rule handleResetStats_initial)
  have h: "intervalHistory (handleResetStats s) = replicate 100 0"
    by (simp add: handleResetStats_def clear_history_100 [OF assms])
  show ?thesis
    by (intro conjI v r h) (simp_all add: handleResetStats_def)
qed

theorem C4_reset_then_snapshot_witness:
  "handleStats 5 (handleResetStats
      (initial\<lparr> totalMessages := 7, lastErrorCount := 2, minInterval := 3, maxInterval := 9,
                totalInterval := 40, stressTestActive := True, stressTestMessages := 4,
                intervalHistoryIndex := 6, intervalHistory := replicate 100 8 \<rparr>)) =
     \<lparr> shown_total = 0, shown_stress = NoStress, shown_intervals = None,
       shown_errors = 0, shown_history = NoTable \<rparr>
   \<and> handleResetStats
      (initial\<lparr> totalMessages := 7, lastErrorCount := 2, minInterval := 3, maxInterval := 9,
                totalInterval := 40, stressTestActive := True, stressTestMessages := 4,
                intervalHistoryIndex := 6, intervalHistory := replicate 100 8 \<rparr>) = initial"
proof -
  let ?s = "initial\<lparr> totalMessages := 7, lastErrorCount := 2, minInterval := 3, maxInterval := 9,
                totalInterval := 40, stressTestActive := True, stressTestMessages := 4,
                intervalHistoryIndex := 6, intervalHistory := replicate 100 8 \<rparr>"
  have len: "length (intervalHistory ?s) = 100" by simp
  have a: "handleStats 5 (handleResetStats ?s) =
     \<lparr> shown_total = 0, shown_stress = NoStress, shown_intervals = None,
       shown_errors = 0, shown_history = NoTable \<rparr>"
    and b: "handleResetStats ?s =
         initial\<lparr> currentPan := currentPan ?s, currentTilt := currentTilt ?s,
                  myServo := myServo ?s, angulo := angulo ?s \<rparr>"
    using C4_reset_then_snapshot [OF len, of 5] by blast+
  have "handleResetStats ?s = initial" by (subst b) (simp add: initial_def)
  with a show ?thesis by simp
qed

subsection \<open>The mean interval\<close>

lemma word_gt_one_unat: "((w :: 32 word) > 1) = (1 < unat w)"
  by unat_arith

lemma unat_pred: "1 < unat (w :: 32 word) \<Longrightarrow> unat (w - 1) = unat w - 1"
  by unat_arith

text \<open>
  C5. The interval rows, and with them the mean, are computed only when
  \<open>totalMessages > 1\<close>. The mean is then the \<open>float\<close> quotient of the sum of intervals
  and \<open>totalMessages - 1\<close>: the divisor is positive, so the quotient is a number, and it
  differs from the exact \<open>sum / (total - 1)\<close> by at most that value times 2^-22 (three
  roundings to \<open>float\<close>). When \<open>totalMessages\<close> is 0 or 1 the page has no interval rows
  and no division is made.
\<close>

theorem C5_mean_guarded:
  "(1 < unat (totalMessages s) \<longrightarrow>
      shown_intervals (handleStats millis s) =
        Some (IntervalStats (minInterval s) (maxInterval s)
               (Fin (f32 (float_of_ulong (totalInterval s) / float_of_ulong (totalMessages s - 1)))))
      \<and> 0 < float_of_ulong (totalMessages s - 1)
      \<and> \<bar>f32 (float_of_ulong (totalInterval s) / float_of_ulong (totalMessages s - 1))
           - of_nat (unat (totalInterval s)) / of_nat (unat (totalMessages s) - 1)\<bar>
          \<le> of_nat (unat (totalInterval s)) / of_nat (unat (totalMessages s) - 1) / 4194304)
   \<and> (unat (totalMessages s) \<le> 1 \<longrightarrow> shown_intervals (handleStats millis s) = None)"
proof (intro conjI impI)
  assume a: "1 < unat (totalMessages s)"
  then have g: "totalMessages s > 1" by (simp add: word_gt_one_unat)
  define S :: rat where "S = of_nat (unat (totalInterval s))"
  define D :: rat where "D = of_nat (unat (totalMessages s) - 1)"
  have S: "0 \<le> S" by (simp only: S_def of_nat_0_le_iff)
  have "0 < unat (totalMessages s) - 1" using a by simp
  then have D: "0 < D" by (simp only: D_def of_nat_0_less_iff)
  have fs: "float_of_ulong (totalInterval s) = f32 S"
    by (simp only: float_of_ulong_def S_def)
  have fd: "float_of_ulong (totalMessages s - 1) = f32 D"
    by (simp only: float_of_ulong_def D_def unat_pred [OF a])
  show pos: "0 < float_of_ulong (totalMessages s - 1)"
    unfolding fd using D by (rule f32_pos)
  show "shown_intervals (handleStats millis s) =
        Some (IntervalStats (minInterval s) (maxInterval s)
               (Fin (f32 (float_of_ulong (totalInterval s) / float_of_ulong (totalMessages s - 1)))))"
    using g pos by (simp add: handleStats_def interval_rows_def mean_interval_def fdiv_def)
  show "\<bar>f32 (float_of_ulong (totalInterval s) / float_of_ulong (totalMessages s - 1))
           - of_nat (unat (totalInterval s)) / of_nat (unat (totalMessages s) - 1)\<bar>
          \<le> of_nat (unat (totalInterval s)) / of_nat (unat (totalMessages s) - 1) / 4194304"
    unfolding fs fd using f32_quotient_error [OF S D] by (simp only: S_def D_def)
next
  assume "unat (totalMessages s) \<le> 1"
  then have "\<not> totalMessages s > 1" by (simp add: word_gt_one_unat)
  then show "shown_intervals (handleStats millis s) = None"
    by (simp add: handleStats_def interval_rows_def)
qed

theorem C5_mean_guarded_witness:
  "shown_intervals (handleStats 30
      (run [(0, None, Some ''90''), (10, None, Some ''45''), (20, None, Some ''10'')] initial)) =
     Some (IntervalStats 4294967295 0 (Fin 0))
   \<and> shown_intervals (handleStats 30 (run [(0, None, Some ''90'')] initial)) = None"
proof -
  let ?a = "run [(0, None, Some ''90''), (10, None, Some ''45''), (20, None, Some ''10'')] initial"
  let ?b = "run [(0, None, Some ''90'')] initial"
  have a: "1 < unat (totalMessages ?a)" by (simp add: run_examples)
  have b: "unat (totalMessages ?b) \<le> 1" by (simp add: run_examples)
  have z: "float_of_ulong 0 = 0" using float_of_ulong_small [of 0] by simp
  have r: "?a = initial\<lparr> angulo := 10, myServo := Some 10, currentPan := 10, totalMessages := 3 \<rparr>"
    by (simp add: run_examples)
  have f: "minInterval ?a = 4294967295" "maxInterval ?a = 0" "totalInterval ?a = 0"
    unfolding r by (simp_all add: initial_def ULONG_MAX_def)
  have "shown_intervals (handleStats 30 ?a) =
        Some (IntervalStats (minInterval ?a) (maxInterval ?a)
               (Fin (f32 (float_of_ulong (totalInterval ?a) / float_of_ulong (totalMessages ?a - 1)))))"
    using C5_mean_guarded [of ?a 30] a by blast
  then have 1: "shown_intervals (handleStats 30 ?a) = Some (IntervalStats 4294967295 0 (Fin 0))"
    by (simp only: f) (simp add: z f32_zero)
  have 2: "shown_intervals (handleStats 30 ?b) = None"
    using C5_mean_guarded [of ?b 30] b by blast
  show ?thesis using 1 2 by simp
qed

subsection \<open>The history table\<close>

lemma history_table_big:
  assumes "2147483648 < uint (totalMessages s)"
  shows "history_table s = Cells []"
proof -
  have "displayCount s < 0" using assms by (rule displayCount_big)
  then have "cell_indices s = []" by (simp add: cell_indices_def)
  moreover have "totalMessages s > 1" using assms by (simp add: word_gt_one_uint)
  ultimately show ?thesis by (simp add: history_table_def)
qed

text \<open>
  C7 (as amended). Take a ring with 100 slots and cursor 0 (startup, or after a reset),
  write any list \<open>ivs\<close> of intervals into it with the specification's \<open>record\<close>, and
  let \<open>totalMessages\<close> be \<open>length ivs + 1\<close>, below 2^31. Then the history table of
  \<open>handleStats\<close> lists the last min(100, length ivs) intervals, oldest first, however
  often the cursor has wrapped; with no interval there is no table. The hypothesis
  that the ring was written is needed: the sketch itself never writes it.
\<close>

theorem C7_history_oldest_first:
  assumes len: "length (intervalHistory s0) = 100" and cur: "intervalHistoryIndex s0 = 0"
    and bound: "int (length ivs) + 1 < 2147483648"
  shows "shown_history (handleStats millis
            ((spec_record_all ivs s0)\<lparr> totalMessages := of_nat (length ivs + 1) \<rparr>)) =
         (if ivs = [] then NoTable else Cells (drop (length ivs - 100) ivs))"
proof (cases "ivs = []")
  case True
  then show ?thesis by (simp add: handleStats_def history_table_def)
next
  case False
  have tot: "uint (of_nat (length ivs + 1) :: 32 word) = int (length ivs) + 1"
    using bound uint_of_nat_small [of "length ivs + 1"] by simp
  show ?thesis
    using False history_of_ring [OF len cur tot bound False]
    by (simp add: handleStats_def)
qed

theorem C7_history_oldest_first_witness:
  "shown_history (handleStats 0
      ((spec_record_all (map of_nat [1..<104]) initial)\<lparr> totalMessages := 104 \<rparr>)) =
     Cells (map of_nat [4..<104])
   \<and> shown_history (handleStats 0
      ((spec_record_all [10, 20, 30] initial)\<lparr> totalMessages := 4 \<rparr>)) = Cells [10, 20, 30]"
proof -
  have len: "length (intervalHistory initial) = 100" and cur: "intervalHistoryIndex initial = 0"
    by (simp_all add: initial_def)
  have b1: "int (length (map (of_nat :: nat \<Rightarrow> ulong) [1..<104])) + 1 < 2147483648" by simp
  have b2: "int (length [10, 20, 30 :: ulong]) + 1 < 2147483648" by simp
  have 1: "shown_history (handleStats 0
      ((spec_record_all (map of_nat [1..<104]) initial)\<lparr> totalMessages := 104 \<rparr>)) =
     Cells (map of_nat [4..<104])"
    using C7_history_oldest_first [OF len cur b1, of 0] by (simp add: drop_map)
  have 2: "shown_history (handleStats 0
      ((spec_record_all [10, 20, 30] initial)\<lparr> totalMessages := 4 \<rparr>)) = Cells [10, 20, 30]"
    using C7_history_oldest_first [OF len cur b2, of 0] by simp
  show ?thesis using 1 2 by simp
qed

text \<open>
  C7 as the specification states it fails. After three successful commands no
  interval has been recorded (the ring and the cursor are as at startup), yet the
  table lists two cells, both 0: fewer than 100 intervals were recorded, and more than
  that many are returned. And with \<open>totalMessages = 3000000000\<close> the cast
  \<open>(int)totalMessages\<close> is negative, so \<open>displayCount\<close> is negative and the table
  has no cell at all, not min(100, total - 1) = 100 cells.
\<close>

theorem C7_counterexample:
  "shown_history (handleStats 30
      (run [(0, None, Some ''90''), (10, None, Some ''45''), (20, None, Some ''10'')] initial)) =
     Cells [0, 0]
   \<and> intervalHistory
      (run [(0, None, Some ''90''), (10, None, Some ''45''), (20, None, Some ''10'')] initial) =
     intervalHistory initial
   \<and> intervalHistoryIndex
      (run [(0, None, Some ''90''), (10, None, Some ''45''), (20, None, Some ''10'')] initial) = 0
   \<and> shown_history (handleStats 30 (initial\<lparr> totalMessages := 3000000000 \<rparr>)) = Cells []"
proof -
  let ?s = "run [(0, None, Some ''90''), (10, None, Some ''45''), (20, None, Some ''10'')] initial"
  have u: "stats_untouched ?s" using stats_untouched_initial by (rule stats_untouched_run)
  have t: "totalMessages ?s = 3" by (simp add: run_examples)
  have "history_table ?s = Cells (replicate 2 0)"
    using history_table_untouched [OF u] by (simp add: t)
  moreover have "replicate 2 (0 :: ulong) = [0, 0]" by (simp add: numeral_2_eq_2)
  ultimately have 1: "shown_history (handleStats 30 ?s) = Cells [0, 0]"
    by (simp add: handleStats_def)
  have 2: "intervalHistory ?s = intervalHistory initial" "intervalHistoryIndex ?s = 0"
    using u by (simp_all add: stats_untouched_def initial_def)
  have "history_table (initial\<lparr> totalMessages := 3000000000 \<rparr>) = Cells []"
    by (rule history_table_big) simp
  then have 3: "shown_history (handleStats 30 (initial\<lparr> totalMessages := 3000000000 \<rparr>)) = Cells []"
    by (simp add: handleStats_def)
  show ?thesis using 1 2 3 by simp
qed

subsection \<open>Reading the statistics, the clock, and the tilt\<close>

text \<open>
  C8. In every state the sketch can reach from startup, two readings of the statistics
  page give the same values, whatever the clock shows at each reading (the only use of
  the clock is the elapsed time of an active stress test, and no run makes a test
  active). Serving the page changes no variable: the request \<open>/stats\<close> returns the
  page and the state it was given, and so does a whole loop pass that serves it with no
  serial line pending.
\<close>

theorem C8_snapshot_idempotent:
  "handleStats t1 (run ps initial) = handleStats t2 (run ps initial)
   \<and> handleClient t1 (Some ''/stats'') s = (Some (StatsPage (handleStats t1 s)), s)
   \<and> snd (loop t1 (Some ''/stats'') None s) = s"
proof -
  have "stats_untouched (run ps initial)"
    using stats_untouched_initial by (rule stats_untouched_run)
  then have "\<not> stressTestActive (run ps initial)" by (simp add: stats_untouched_def)
  then have "handleStats t1 (run ps initial) = handleStats t2 (run ps initial)"
    by (simp add: handleStats_def stress_rows_def)
  moreover have "handleClient t1 (Some ''/stats'') s = (Some (StatsPage (handleStats t1 s)), s)"
    by (simp add: handleClient_def)
  moreover have "snd (loop t1 (Some ''/stats'') None s) = s"
    by (simp add: loop_state handleClient_def loop_serial_def)
  ultimately show ?thesis by simp
qed

text \<open>
  C9. The claim: if the clock wraps between two consecutive successful submissions,
  the interval computed for them is still the true elapsed time. The loop computes no
  such interval: it never reads the clock and never stores a timestamp. Two commands
  arrive at clock 4294967280 and, 48 ticks later and past the wrap, at clock 32; the
  page then shows a minimum interval of 4294967295, a maximum and a mean of 0 and one
  history cell holding 0, not 48. This is the defect of C3 seen at a wrap of the clock.
\<close>

theorem C9_interval_across_wrap_not_computed:
  "(4294967280 :: ulong) + 48 = 32
   \<and> lastMessageTime (run [(4294967280, None, Some ''90''), (32, None, Some ''45'')] initial) = 0
   \<and> handleStats 40 (run [(4294967280, None, Some ''90''), (32, None, Some ''45'')] initial) =
       \<lparr> shown_total = 2, shown_stress = NoStress,
         shown_intervals = Some (IntervalStats 4294967295 0 (Fin 0)),
         shown_errors = 0, shown_history = Cells [0] \<rparr>"
proof -
  let ?s = "run [(4294967280, None, Some ''90''), (32, None, Some ''45'')] initial"
  have u: "stats_untouched ?s" using stats_untouched_initial by (rule stats_untouched_run)
  have t: "totalMessages ?s = 2" by (simp add: run_examples)
  show ?thesis
    using u page_after_two_commands [OF u t, of 40] by (simp add: stats_untouched_def)
qed

text \<open>
  C10. No loop pass, serial line or reset assigns to \<open>currentTilt\<close>: after every run
  it has the value it had before, and after every run from startup it is 90.
\<close>

theorem C10_tilt_never_changes:
  "currentTilt (run ps s) = currentTilt s
   \<and> currentTilt (run ps initial) = 90
   \<and> currentTilt (snd (loop_serial line s)) = currentTilt s
   \<and> currentTilt (handleResetStats s) = currentTilt s"
proof -
  have "currentTilt (snd (loop_serial line s)) = currentTilt s"
    by (cases line) (simp_all add: loop_serial_def Let_def)
  moreover have "currentTilt (run ps initial) = 90"
    by (simp add: currentTilt_run initial_def)
  ultimately show ?thesis
    by (simp add: currentTilt_run handleResetStats_def)
qed

end
